theory Spec2Isabelle
  imports Main
begin

section \<open>Python values used by the program\<close>

text \<open>
  Python strings are modelled as \<open>string\<close>; a character is a code point of the
  Latin-1 range, the range the terminal can show. Errors the interpreter would raise are
  values of \<open>error\<close>.
\<close>

datatype error = IndexError | AttributeError | TypeError | UnicodeDecodeError

section \<open>HistoryStore\<close>

text \<open>
  The history is a list of messages, dictionaries \<open>{"role": .., "content": ..}\<close> kept as
  association lists. \<open>load\<close> stores whatever list the history file holds, so an entry
  may be any JSON value: \<open>NotDict\<close> is an entry that is not a dictionary (it has no
  \<open>get\<close>), and the value under a key is a string, a list or object with so many elements,
  or a number, boolean or null (which has no \<open>len\<close>).

  List objects live in a heap, since \<open>get_messages\<close> hands a list object to the caller:
  \<open>objs h a\<close> is the content of the list at address \<open>a\<close>, and \<open>next_free h\<close> is the first
  address not yet allocated.
\<close>

datatype jvalue = JStr string | JSized nat | JScalar

datatype message = Dict "(string \<times> jvalue) list" | NotDict

type_synonym addr = nat

record heap =
  objs :: "addr \<Rightarrow> message list"
  next_free :: addr

record history_store =
  max_turns :: int
  max_chars :: int
  messages :: addr

text \<open>\<open>len(m.get("content", ""))\<close>: \<open>AttributeError\<close> when \<open>m\<close> is not a dictionary,
  \<open>TypeError\<close> when the content has no length.\<close>

definition content_len :: "message \<Rightarrow> error + int" where
  "content_len m =
     (case m of
        NotDict \<Rightarrow> Inl AttributeError
      | Dict kv \<Rightarrow>
          (case map_of kv ''content'' of
             None \<Rightarrow> Inr 0
           | Some (JStr c) \<Rightarrow> Inr (int (length c))
           | Some (JSized n) \<Rightarrow> Inr (int n)
           | Some JScalar \<Rightarrow> Inl TypeError))"

text \<open>\<open>sum(len(m.get("content", "")) for m in self.messages)\<close>: the first entry that
  raises ends the sum.\<close>

fun total_chars :: "message list \<Rightarrow> error + int" where
  "total_chars [] = Inr 0"
| "total_chars (m # ms) =
     (case content_len m of
        Inl e \<Rightarrow> Inl e
      | Inr n \<Rightarrow> (case total_chars ms of Inl e \<Rightarrow> Inl e | Inr t \<Rightarrow> Inr (n + t)))"

text \<open>First loop of \<open>_trim\<close>: \<open>while len(self.messages) > self.max_turns * 2: pop(0)\<close>;
  \<open>pop(0)\<close> on an empty list raises.\<close>

fun trim_turns :: "int \<Rightarrow> message list \<Rightarrow> error + message list" where
  "trim_turns mt [] = (if 0 > mt * 2 then Inl IndexError else Inr [])"
| "trim_turns mt (m # rest) =
     (if int (length (m # rest)) > mt * 2 then trim_turns mt rest else Inr (m # rest))"

text \<open>Second loop: \<open>while total_chars > self.max_chars and self.messages\<close>, with the
  running total decreased by the length of the removed content.\<close>

fun trim_chars :: "int \<Rightarrow> int \<Rightarrow> message list \<Rightarrow> error + message list" where
  "trim_chars mc tot [] = Inr []"
| "trim_chars mc tot (m # rest) =
     (if tot > mc
      then (case content_len m of
              Inl e \<Rightarrow> Inl e
            | Inr n \<Rightarrow> trim_chars mc (tot - n) rest)
      else Inr (m # rest))"

definition trim_list :: "int \<Rightarrow> int \<Rightarrow> message list \<Rightarrow> error + message list" where
  "trim_list mt mc ms =
     (case trim_turns mt ms of
        Inl e \<Rightarrow> Inl e
      | Inr ms' \<Rightarrow>
          (case total_chars ms' of
             Inl e \<Rightarrow> Inl e
           | Inr tot \<Rightarrow> trim_chars mc tot ms'))"

definition store_msgs :: "heap \<Rightarrow> history_store \<Rightarrow> message list" where
  "store_msgs h s = objs h (messages s)"

definition set_list :: "heap \<Rightarrow> addr \<Rightarrow> message list \<Rightarrow> heap" where
  "set_list h a ms = h\<lparr>objs := (objs h)(a := ms)\<rparr>"

definition alloc :: "heap \<Rightarrow> message list \<Rightarrow> heap \<times> addr" where
  "alloc h ms = (h\<lparr>objs := (objs h)(next_free h := ms), next_free := Suc (next_free h)\<rparr>,
                 next_free h)"

definition trim :: "heap \<Rightarrow> history_store \<Rightarrow> error + heap" where
  "trim h s =
     (case trim_list (max_turns s) (max_chars s) (store_msgs h s) of
        Inl e \<Rightarrow> Inl e
      | Inr ms \<Rightarrow> Inr (set_list h (messages s) ms))"

text \<open>The dictionary \<open>{"role": role, "content": content}\<close> that \<open>add\<close> appends.\<close>

definition new_message :: "string \<Rightarrow> string \<Rightarrow> message" where
  "new_message role content = Dict [(''role'', JStr role), (''content'', JStr content)]"

definition add :: "heap \<Rightarrow> history_store \<Rightarrow> string \<Rightarrow> string \<Rightarrow> error + heap" where
  "add h s role content =
     trim (set_list h (messages s) (store_msgs h s @ [new_message role content])) s"



text \<open>\<open>get_messages\<close> returns \<open>list(self.messages)\<close>: a new list object with the same
  elements.\<close>

definition get_messages :: "heap \<Rightarrow> history_store \<Rightarrow> heap \<times> addr" where
  "get_messages h s = alloc h (store_msgs h s)"

text \<open>Any in-place change of the list object at \<open>a\<close> (append, pop, remove, sort, reverse,
  slice assignment) replaces its content by a function of the old content.\<close>

definition mutate_list :: "heap \<Rightarrow> addr \<Rightarrow> (message list \<Rightarrow> message list) \<Rightarrow> heap" where
  "mutate_list h a f = set_list h a (f (objs h a))"




text \<open>\<open>HistoryStore()\<close>: the constructor allocates the empty message list.\<close>

definition new_store :: "heap \<Rightarrow> int \<Rightarrow> int \<Rightarrow> heap \<times> history_store" where
  "new_store h mt mc =
     (let (h', a) = alloc h [] in (h', \<lparr>max_turns = mt, max_chars = mc, messages = a\<rparr>))"

text \<open>A store with small caps and three messages, used to run the definitions.\<close>

definition example_store :: history_store where
  "example_store = \<lparr>max_turns = 1, max_chars = 5, messages = 0\<rparr>"

definition example_heap :: heap where
  "example_heap =
     \<lparr>objs = (\<lambda>_. [])(0 := [new_message ''user'' ''abc'',
                             new_message ''assistant'' ''defg'',
                             new_message ''user'' ''hi'']),
      next_free = 1\<rparr>"

section \<open>Transports\<close>

text \<open>
  A byte is a Python \<open>int\<close>. The serial port object is a record: whether it is open, the
  bytes written to it so far (\<open>tx\<close>) and what the coming one-byte reads will give
  (\<open>rx\<close>): \<open>Some b\<close> when byte \<open>b\<close> arrives within the read's timeout, \<open>None\<close> when the
  read times out. Once \<open>rx\<close> is used up every read times out. Sleeping, the debug log
  and failures of the device itself are left out.
\<close>

type_synonym byte = nat

record port =
  port_open :: bool
  tx :: "byte list"
  rx :: "byte option list"

record serial_minitel =
  serial :: "port option"
  line_delay_ms :: int
  char_delay_ms :: int
  pagination_enabled :: bool

definition is_open :: "serial_minitel \<Rightarrow> bool" where
  "is_open m = (case serial m of None \<Rightarrow> False | Some p \<Rightarrow> port_open p)"

text \<open>\<open>sanitize_latin1\<close> replaces what Latin-1 cannot encode; on characters of the Latin-1
  range it changes nothing, and \<open>encode("latin-1")\<close> gives their code points.\<close>

definition sanitize_latin1 :: "string \<Rightarrow> string" where
  "sanitize_latin1 text = text"

definition encode_latin1 :: "string \<Rightarrow> byte list" where
  "encode_latin1 text = map of_char text"

definition port_write :: "port \<Rightarrow> byte list \<Rightarrow> port" where
  "port_write p d = p\<lparr>tx := tx p @ d\<rparr>"

text \<open>\<open>write\<close> (named \<open>write_text\<close> here): byte by byte when a character delay is
  set, in one piece otherwise; the port receives the same bytes.\<close>

definition write_text :: "serial_minitel \<Rightarrow> string \<Rightarrow> serial_minitel" where
  "write_text m text =
     (if \<not> is_open m then m
      else case serial m of
             None \<Rightarrow> m
           | Some p \<Rightarrow>
               (let d = encode_latin1 (sanitize_latin1 text)
                in if char_delay_ms m > 0
                   then m\<lparr>serial := Some (foldl (\<lambda>q b. port_write q [b]) p d)\<rparr>
                   else m\<lparr>serial := Some (port_write p d)\<rparr>))"

definition writeln :: "serial_minitel \<Rightarrow> string \<Rightarrow> serial_minitel" where
  "writeln m line = write_text m (line @ [CHR 0x0D, CHR 0x0A])"

text \<open>\<open>read_byte\<close>: the timeout is real time; whether the byte arrives within it is what
  the head of \<open>rx\<close> says.\<close>

definition read_byte :: "serial_minitel \<Rightarrow> byte option \<times> serial_minitel" where
  "read_byte m =
     (if \<not> is_open m then (None, m)
      else case serial m of
             None \<Rightarrow> (None, m)
           | Some p \<Rightarrow>
               (case rx p of
                  [] \<Rightarrow> (None, m)
                | r # rest \<Rightarrow> (r, m\<lparr>serial := Some (p\<lparr>rx := rest\<rparr>)\<rparr>)))"

text \<open>
  The loop of \<open>read_line\<close>. Its condition \<open>(time.time() - start_time) < timeout\<close> is real
  time: the first argument is the number of times the condition is still found true, so
  \<open>0\<close> is the deadline elapsed. Every run of the source is the run of the model for some
  such number. \<open>bytes([byte])\<close> raises for a value above 255 and the source swallows it.
\<close>

fun read_line_loop :: "nat \<Rightarrow> bool \<Rightarrow> string \<Rightarrow> serial_minitel \<Rightarrow> string option \<times> serial_minitel" where
  "read_line_loop 0 echo buffer m = (if buffer \<noteq> [] then Some buffer else None, m)"
| "read_line_loop (Suc n) echo buffer m =
     (case read_byte m of
        (None, m1) \<Rightarrow> read_line_loop n echo buffer m1
      | (Some b, m1) \<Rightarrow>
          if b = 0x0d \<or> b = 0x0a then
            (case read_byte m1 of
               (next_byte, m2) \<Rightarrow> (Some buffer, if echo then writeln m2 [] else m2))
          else if b = 0x08 \<or> b = 0x7f then
            (if buffer \<noteq> []
             then read_line_loop n echo (butlast buffer)
                    (if echo then write_text m1 [CHR 0x08, CHR '' '', CHR 0x08] else m1)
             else read_line_loop n echo buffer m1)
          else if 32 \<le> b \<and> b < 127 then
            read_line_loop n echo (buffer @ [char_of b])
              (if echo then write_text m1 [char_of b] else m1)
          else if b \<ge> 128 then
            (if b < 256
             then read_line_loop n echo (buffer @ [char_of b])
                    (if echo then write_text m1 [char_of b] else m1)
             else read_line_loop n echo buffer m1)
          else read_line_loop n echo buffer m1)"

definition read_line :: "nat \<Rightarrow> bool \<Rightarrow> serial_minitel \<Rightarrow> string option \<times> serial_minitel" where
  "read_line polls echo m =
     (if \<not> is_open m then (None, m) else read_line_loop polls echo [] m)"

definition wait_keypress :: "serial_minitel \<Rightarrow> byte option \<times> serial_minitel" where
  "wait_keypress m = read_byte m"

text \<open>
  The simulated terminal prints to standard output and reads standard input: \<open>stdout\<close> is
  what was printed, \<open>stdin\<close> the characters still to be read, followed by end of input.
\<close>

record simulated_minitel =
  sim_is_open :: bool
  sim_line_delay_ms :: int
  sim_pagination_enabled :: bool
  stdout :: string
  stdin :: string

definition sim_open :: "simulated_minitel \<Rightarrow> bool \<times> simulated_minitel" where
  "sim_open m = (True, m\<lparr>sim_is_open := True\<rparr>)"

definition sim_close :: "simulated_minitel \<Rightarrow> simulated_minitel" where
  "sim_close m = m\<lparr>sim_is_open := False\<rparr>"

definition sim_write :: "simulated_minitel \<Rightarrow> string \<Rightarrow> simulated_minitel" where
  "sim_write m text = m\<lparr>stdout := stdout m @ sanitize_latin1 text\<rparr>"

definition sim_writeln :: "simulated_minitel \<Rightarrow> string \<Rightarrow> simulated_minitel" where
  "sim_writeln m line = m\<lparr>stdout := stdout m @ sanitize_latin1 line @ [CHR 0x0A]\<rparr>"

text \<open>\<open>read_byte\<close>: \<open>select\<close> reports standard input readable when a character or the end
  of input is there; \<open>read(1)\<close> gives the empty string at the end of input.\<close>

definition sim_read_byte :: "simulated_minitel \<Rightarrow> byte option \<times> simulated_minitel" where
  "sim_read_byte m =
     (case stdin m of
        [] \<Rightarrow> (None, m)
      | c # rest \<Rightarrow> (Some (of_char c), m\<lparr>stdin := rest\<rparr>))"

text \<open>\<open>read_line\<close> is \<open>input()\<close>: the characters up to the next line feed, which is consumed
  and not returned; \<open>EOFError\<close>, caught and turned into \<open>None\<close>, when no character is left.
  Neither argument is used.\<close>

definition sim_read_line :: "nat \<Rightarrow> bool \<Rightarrow> simulated_minitel \<Rightarrow> string option \<times> simulated_minitel" where
  "sim_read_line polls echo m =
     (case stdin m of
        [] \<Rightarrow> (None, m)
      | _ \<Rightarrow> (Some (takeWhile (\<lambda>c. c \<noteq> CHR 0x0A) (stdin m)),
              m\<lparr>stdin := drop 1 (dropWhile (\<lambda>c. c \<noteq> CHR 0x0A) (stdin m))\<rparr>))"

text \<open>A serial terminal with an open port, and one whose port was never opened.\<close>

definition open_minitel :: "byte option list \<Rightarrow> serial_minitel" where
  "open_minitel input =
     \<lparr>serial = Some \<lparr>port_open = True, tx = [], rx = input\<rparr>,
      line_delay_ms = 80, char_delay_ms = 0, pagination_enabled = True\<rparr>"

definition closed_minitel :: serial_minitel where
  "closed_minitel =
     \<lparr>serial = None, line_delay_ms = 80, char_delay_ms = 0, pagination_enabled = True\<rparr>"

definition sent :: "serial_minitel \<Rightarrow> byte list" where
  "sent m = (case serial m of None \<Rightarrow> [] | Some p \<Rightarrow> tx p)"

definition pending :: "serial_minitel \<Rightarrow> byte option list" where
  "pending m = (case serial m of None \<Rightarrow> [] | Some p \<Rightarrow> rx p)"

text \<open>
  The line discipline as a table over bytes, stated once for the proofs: what one poll
  that is not a terminator does to the buffer (\<open>spec_edit\<close>), what it echoes
  (\<open>spec_echo\<close>), and the whole read over the poll outcomes alone (\<open>spec_read_line\<close>:
  result, outcomes left unread, bytes echoed).
\<close>

definition is_terminator :: "byte option \<Rightarrow> bool" where
  "is_terminator r \<longleftrightarrow> r = Some 0x0d \<or> r = Some 0x0a"

fun spec_edit :: "string \<Rightarrow> byte option \<Rightarrow> string" where
  "spec_edit buf None = buf"
| "spec_edit buf (Some b) =
     (if b = 0x08 \<or> b = 0x7f then butlast buf
      else if (0x20 \<le> b \<and> b \<le> 0x7e) \<or> (0x80 \<le> b \<and> b \<le> 0xff) then buf @ [char_of b]
      else buf)"

fun spec_echo :: "string \<Rightarrow> byte option \<Rightarrow> byte list" where
  "spec_echo buf None = []"
| "spec_echo buf (Some b) =
     (if b = 0x08 \<or> b = 0x7f then (if buf = [] then [] else [0x08, 0x20, 0x08])
      else if (0x20 \<le> b \<and> b \<le> 0x7e) \<or> (0x80 \<le> b \<and> b \<le> 0xff) then [b]
      else [])"

fun spec_read_line ::
  "nat \<Rightarrow> bool \<Rightarrow> string \<Rightarrow> byte option list \<Rightarrow> string option \<times> byte option list \<times> byte list" where
  "spec_read_line 0 echo buf rs = (if buf = [] then None else Some buf, rs, [])"
| "spec_read_line (Suc n) echo buf [] = spec_read_line n echo buf []"
| "spec_read_line (Suc n) echo buf (r # rs) =
     (if is_terminator r then (Some buf, drop 1 rs, if echo then [0x0d, 0x0a] else [])
      else case spec_read_line n echo (spec_edit buf r) rs of
             (res, rest, out) \<Rightarrow> (res, rest, (if echo then spec_echo buf r else []) @ out))"

fun spec_echoes :: "string \<Rightarrow> byte option list \<Rightarrow> byte list" where
  "spec_echoes buf [] = []"
| "spec_echoes buf (r # rs) = spec_echo buf r @ spec_echoes (spec_edit buf r) rs"

text \<open>The same terminal with other outcomes waiting at the port.\<close>

definition set_pending :: "serial_minitel \<Rightarrow> byte option list \<Rightarrow> serial_minitel" where
  "set_pending m rs = m\<lparr>serial := map_option (\<lambda>p. p\<lparr>rx := rs\<rparr>) (serial m)\<rparr>"

text \<open>A simulated terminal that was closed, with input waiting.\<close>

definition closed_simulated :: "string \<Rightarrow> simulated_minitel" where
  "closed_simulated input =
     \<lparr>sim_is_open = False, sim_line_delay_ms = 0, sim_pagination_enabled = True,
      stdout = [], stdin = input\<rparr>"

definition open_simulated :: "string \<Rightarrow> simulated_minitel" where
  "open_simulated input =
     \<lparr>sim_is_open = True, sim_line_delay_ms = 0, sim_pagination_enabled = True,
      stdout = [], stdin = input\<rparr>"

section \<open>Python string operations\<close>

text \<open>\<open>str.isspace\<close> on one character of the Latin-1 range; \<open>lstrip()\<close>, \<open>rstrip()\<close> and
  \<open>strip()\<close> remove such characters.\<close>

definition is_space :: "char \<Rightarrow> bool" where
  "is_space c \<longleftrightarrow>
     (let n = (of_char c :: nat)
      in (0x09 \<le> n \<and> n \<le> 0x0d) \<or> (0x1c \<le> n \<and> n \<le> 0x20) \<or> n = 0x85 \<or> n = 0xa0)"

definition lstrip :: "string \<Rightarrow> string" where
  "lstrip s = dropWhile is_space s"

definition rstrip :: "string \<Rightarrow> string" where
  "rstrip s = rev (dropWhile is_space (rev s))"

definition strip :: "string \<Rightarrow> string" where
  "strip s = lstrip (rstrip s)"

text \<open>Slices \<open>s[:k]\<close> and \<open>s[k:]\<close>; a negative \<open>k\<close> counts from the end.\<close>

definition slice_to :: "string \<Rightarrow> int \<Rightarrow> string" where
  "slice_to s k = (if 0 \<le> k then take (nat k) s else take (length s - nat (- k)) s)"

definition slice_from :: "string \<Rightarrow> int \<Rightarrow> string" where
  "slice_from s k = (if 0 \<le> k then drop (nat k) s else drop (length s - nat (- k)) s)"

text \<open>\<open>s.index(c)\<close> for a character that occurs in \<open>s\<close>, and \<open>s.rfind(c)\<close>, which is
  \<open>-1\<close> when \<open>c\<close> does not occur.\<close>

definition index_of :: "string \<Rightarrow> char \<Rightarrow> nat" where
  "index_of s c = length (takeWhile (\<lambda>x. x \<noteq> c) s)"

definition rfind :: "string \<Rightarrow> char \<Rightarrow> int" where
  "rfind s c =
     (if c \<in> set s then int (length s) - 1 - int (length (takeWhile (\<lambda>x. x \<noteq> c) (rev s)))
      else - 1)"

section \<open>Display functions\<close>

text \<open>
  The display functions are given a terminal of either kind and only call its methods. The
  terminal is the pagination flag and the list of calls made so far.
\<close>

datatype call = Write string | Writeln string | WaitKeypress

record terminal =
  pagination :: bool
  calls :: "call list"

definition t_write :: "terminal \<Rightarrow> string \<Rightarrow> terminal" where
  "t_write t s = t\<lparr>calls := calls t @ [Write s]\<rparr>"

definition t_writeln :: "terminal \<Rightarrow> string \<Rightarrow> terminal" where
  "t_writeln t s = t\<lparr>calls := calls t @ [Writeln s]\<rparr>"

definition t_wait_keypress :: "terminal \<Rightarrow> terminal" where
  "t_wait_keypress t = t\<lparr>calls := calls t @ [WaitKeypress]\<rparr>"

definition WRAP_COLS :: int where
  "WRAP_COLS = 40"

definition PAGE_LINES :: int where
  "PAGE_LINES = 18"

text \<open>The pause: an empty line, the marker, a key press, the marker erased.\<close>

definition pause :: "terminal \<Rightarrow> terminal" where
  "pause t =
     t_write (t_wait_keypress (t_write (t_writeln t []) ''-- suite (touche) --''))
       ([CHR 0x0D] @ replicate 22 (CHR '' '') @ [CHR 0x0D])"

text \<open>\<open>if minitel.is_pagination_enabled() and line_count >= page_lines\<close>: pause and reset
  the counter.\<close>

definition paginate :: "int \<Rightarrow> terminal \<Rightarrow> int \<Rightarrow> terminal \<times> int" where
  "paginate page_lines t line_count =
     (if pagination t \<and> line_count \<ge> page_lines then (pause t, 0) else (t, line_count))"

lemma lstrip_slice_from_le: "length (lstrip (slice_from r k)) \<le> length r"
proof -
  have "length (lstrip (slice_from r k)) \<le> length (slice_from r k)"
    by (simp add: lstrip_def length_dropWhile_le)
  also have "\<dots> \<le> length r"
    by (simp add: slice_from_def)
  finally show ?thesis .
qed

lemma lstrip_slice_from_less:
  "r \<noteq> [] \<Longrightarrow> 1 \<le> k \<Longrightarrow> length (lstrip (slice_from r k)) < length r"
proof -
  assume r: "r \<noteq> []" and k: "1 \<le> k"
  have "length (lstrip (slice_from r k)) \<le> length (slice_from r k)"
    by (simp add: lstrip_def length_dropWhile_le)
  also have "\<dots> < length r"
    using r k by (simp add: slice_from_def)
  finally show ?thesis .
qed

lemma wrap_cut_decreases:
  assumes "r \<noteq> []" and "sl = WRAP_COLS - cl" and "\<not> int (length r) \<le> sl"
    and "cp = rfind (slice_to r sl) c" and "cp' = (if cp \<le> 0 then sl else cp)"
    and "r' = lstrip (slice_from r cp')"
  shows "2 * length r' + (if WRAP_COLS \<le> 0 then 1 else 0)
         < 2 * length r + (if WRAP_COLS \<le> cl then 1 else 0)"
proof (cases "WRAP_COLS \<le> cl")
  case True
  then show ?thesis
    using lstrip_slice_from_le [of r cp'] by (simp add: assms(6) WRAP_COLS_def)
next
  case False
  then have "1 \<le> cp'"
    by (simp add: assms(2,5))
  from lstrip_slice_from_less [OF assms(1) this] False show ?thesis
    by (simp add: assms(6) WRAP_COLS_def)
qed

text \<open>
  The wrap loop of the line-break branch of \<open>display_streaming\<close> (\<open>while remaining:\<close>).
  It returns the terminal, \<open>line_count\<close> and \<open>current_line_len\<close>.
\<close>

function wrap_remaining :: "int \<Rightarrow> string \<Rightarrow> terminal \<Rightarrow> int \<Rightarrow> int \<Rightarrow> terminal \<times> int \<times> int" where
  "wrap_remaining page_lines remaining t line_count current_line_len =
     (if remaining = [] then (t, line_count, current_line_len)
      else
        let space_left = WRAP_COLS - current_line_len
        in if int (length remaining) \<le> space_left
           then (t_write t remaining, line_count, current_line_len + int (length remaining))
           else
             let cut_point = rfind (slice_to remaining space_left) (CHR '' '');
                 cut_point' = (if cut_point \<le> 0 then space_left else cut_point);
                 t1 = t_writeln (t_write t (slice_to remaining cut_point')) [];
                 remaining' = lstrip (slice_from remaining cut_point');
                 (t2, line_count') = paginate page_lines t1 (line_count + 1)
             in wrap_remaining page_lines remaining' t2 line_count' 0)"
  by pat_completeness auto
termination
  apply (relation "measure (\<lambda>(pl, r, t, lc, cl). 2 * length r + (if WRAP_COLS \<le> cl then 1 else 0))")
   apply simp
  apply (simp only: in_measure prod.case)
  apply (rule wrap_cut_decreases [OF _ refl _ refl refl refl]; assumption)
  done

text \<open>The wrap loop of the word-boundary branch (\<open>while segment:\<close>): a segment that fits is
  written followed by a space.\<close>

function wrap_segment :: "int \<Rightarrow> string \<Rightarrow> terminal \<Rightarrow> int \<Rightarrow> int \<Rightarrow> terminal \<times> int \<times> int" where
  "wrap_segment page_lines segment t line_count current_line_len =
     (if segment = [] then (t, line_count, current_line_len)
      else
        let space_left = WRAP_COLS - current_line_len
        in if int (length segment) \<le> space_left
           then (t_write t (segment @ '' ''), line_count,
                 current_line_len + (int (length segment) + 1))
           else
             let cut_point = rfind (slice_to segment space_left) (CHR '' '');
                 cut_point' = (if cut_point \<le> 0 then space_left else cut_point);
                 t1 = t_writeln (t_write t (slice_to segment cut_point')) [];
                 segment' = lstrip (slice_from segment cut_point');
                 (t2, line_count') = paginate page_lines t1 (line_count + 1)
             in wrap_segment page_lines segment' t2 line_count' 0)"
  by pat_completeness auto
termination
  apply (relation "measure (\<lambda>(pl, r, t, lc, cl). 2 * length r + (if WRAP_COLS \<le> cl then 1 else 0))")
   apply simp
  apply (simp only: in_measure prod.case)
  apply (rule wrap_cut_decreases [OF _ refl _ refl refl refl]; assumption)
  done

text \<open>The flush of what is left in the buffer when the stream ends: no line is counted
  and no pause is made.\<close>

function flush_buffer :: "string \<Rightarrow> terminal \<Rightarrow> int \<Rightarrow> terminal" where
  "flush_buffer buffer t current_line_len =
     (if buffer = [] then t
      else
        let space_left = WRAP_COLS - current_line_len
        in if int (length buffer) \<le> space_left
           then t_write t buffer
           else
             let cut_point = rfind (slice_to buffer space_left) (CHR '' '');
                 cut_point' = (if cut_point \<le> 0 then space_left else cut_point);
                 t1 = t_writeln (t_write t (slice_to buffer cut_point')) [];
                 buffer' = lstrip (slice_from buffer cut_point')
             in flush_buffer buffer' t1 0)"
  by pat_completeness auto
termination
  apply (relation "measure (\<lambda>(r, t, cl). 2 * length r + (if WRAP_COLS \<le> cl then 1 else 0))")
   apply simp
  apply (simp only: in_measure prod.case)
  apply (rule wrap_cut_decreases [OF _ refl _ refl refl refl]; assumption)
  done

lemma takeWhile_neq_less: "c \<in> set s \<Longrightarrow> length (takeWhile (\<lambda>x. x \<noteq> c) s) < length s"
  by (induction s) auto

lemma rfind_nonneg: "c \<in> set s \<Longrightarrow> 0 \<le> rfind s c"
  using takeWhile_neq_less [of c "rev s"] by (simp add: rfind_def)

text \<open>
  The loop \<open>while buffer:\<close> that follows the arrival of a chunk. It returns the buffer
  left for the next chunk, the terminal, \<open>line_count\<close> and \<open>current_line_len\<close>.
\<close>

function process_buffer :: "int \<Rightarrow> string \<Rightarrow> terminal \<Rightarrow> int \<Rightarrow> int \<Rightarrow> string \<times> terminal \<times> int \<times> int" where
  "process_buffer page_lines buffer t line_count current_line_len =
     (if buffer = [] then (buffer, t, line_count, current_line_len)
      else if CHR 0x0A \<in> set buffer then
        let idx = index_of buffer (CHR 0x0A);
            segment = take idx buffer;
            buffer' = drop (idx + 1) buffer;
            (t1, line_count1, current_line_len1) =
              (if current_line_len + int (length segment) \<le> WRAP_COLS
               then (t_write t segment, line_count, current_line_len + int (length segment))
               else wrap_remaining page_lines segment t line_count current_line_len);
            t2 = t_writeln t1 [];
            (t3, line_count3) = paginate page_lines t2 (line_count1 + 1)
        in process_buffer page_lines buffer' t3 line_count3 0
      else if CHR '' '' \<in> set buffer \<and> length buffer > 10 then
        let idx = rfind buffer (CHR '' '');
            segment = slice_to buffer idx;
            buffer' = slice_from buffer (idx + 1);
            (t1, line_count1, current_line_len1) =
              wrap_segment page_lines segment t line_count current_line_len
        in process_buffer page_lines buffer' t1 line_count1 current_line_len1
      else (buffer, t, line_count, current_line_len))"
  by pat_completeness auto
termination
proof (relation "measure (\<lambda>(pl, b, t, lc, cl). length b)", goal_cases)
  case 1
  show ?case by simp
next
  case (2 page_lines buffer t line_count current_line_len)
  then show ?case by simp
next
  case (3 page_lines buffer t line_count current_line_len)
  then have "0 \<le> rfind buffer (CHR '' '')"
    by (simp add: rfind_nonneg)
  with 3 show ?case
    by (simp add: slice_from_def)
qed

text \<open>The body of \<open>for chunk in text_generator\<close> and the loop over the chunks; the
  generator is the list of the chunks it yields.\<close>

definition stream_chunk ::
  "int \<Rightarrow> string \<times> string \<times> terminal \<times> int \<times> int \<Rightarrow> string \<Rightarrow>
   string \<times> string \<times> terminal \<times> int \<times> int" where
  "stream_chunk page_lines st chunk =
     (case st of (full_text, buffer, t, line_count, current_line_len) \<Rightarrow>
        (case process_buffer page_lines (buffer @ chunk) t line_count current_line_len of
           (buffer', t', line_count', current_line_len') \<Rightarrow>
             (full_text @ chunk, buffer', t', line_count', current_line_len')))"

definition stream_chunks ::
  "int \<Rightarrow> terminal \<Rightarrow> string list \<Rightarrow> string \<times> string \<times> terminal \<times> int \<times> int" where
  "stream_chunks page_lines t chunks = foldl (stream_chunk page_lines) ([], [], t, 0, 0) chunks"

definition display_streaming :: "terminal \<Rightarrow> string list \<Rightarrow> int \<Rightarrow> string \<times> terminal" where
  "display_streaming t chunks page_lines =
     (case stream_chunks page_lines t chunks of
        (full_text, buffer, t1, line_count, current_line_len) \<Rightarrow>
          (let t2 = (if buffer \<noteq> [] then flush_buffer buffer t1 current_line_len else t1)
           in (full_text, t_writeln t2 [])))"


text \<open>
  What a trace of calls puts on the screen, line by line: the characters written between
  two line terminators. The second argument is the line being written.
\<close>

fun emitted_lines :: "call list \<Rightarrow> string \<Rightarrow> string list" where
  "emitted_lines [] cur = (if cur = [] then [] else [cur])"
| "emitted_lines (Write s # cs) cur = emitted_lines cs (cur @ s)"
| "emitted_lines (Writeln s # cs) cur = (cur @ s) # emitted_lines cs []"
| "emitted_lines (WaitKeypress # cs) cur = emitted_lines cs cur"

definition pauses :: "terminal \<Rightarrow> nat" where
  "pauses t = length (filter (\<lambda>c. c = WaitKeypress) (calls t))"

definition line_ends :: "terminal \<Rightarrow> nat" where
  "line_ends t = length (filter (\<lambda>c. case c of Writeln s \<Rightarrow> True | _ \<Rightarrow> False) (calls t))"

definition new_terminal :: "bool \<Rightarrow> terminal" where
  "new_terminal p = \<lparr>pagination = p, calls = []\<rparr>"

section \<open>textwrap.wrap and wrap_40\<close>
















text \<open>The inner loop of \<open>_wrap_chunks\<close>: chunks are taken while they fit.\<close>

fun fill_line :: "nat \<Rightarrow> string list \<Rightarrow> nat \<Rightarrow> string list \<Rightarrow> string list \<times> nat \<times> string list" where
  "fill_line width cur_line cur_len [] = (cur_line, cur_len, [])"
| "fill_line width cur_line cur_len (c # chunks) =
     (if cur_len + length c \<le> width
      then fill_line width (cur_line @ [c]) (cur_len + length c) chunks
      else (cur_line, cur_len, c # chunks))"

text \<open>\<open>_handle_long_word\<close> with \<open>break_long_words\<close> and \<open>break_on_hyphens\<close>: as much of the
  chunk as fits goes on the line, up to the last hyphen in that part when there is one
  with a character other than a hyphen before it.\<close>

definition long_word_end :: "nat \<Rightarrow> nat \<Rightarrow> string \<Rightarrow> nat" where
  "long_word_end width cur_len chunk =
     (let space_left = (if width < 1 then 1 else width - cur_len);
          hyphen = rfind (take space_left chunk) (CHR ''-'')
      in if length chunk > space_left \<and> hyphen > 0 \<and>
            (\<exists>c\<in>set (take (nat hyphen) chunk). c \<noteq> CHR ''-'')
         then nat hyphen + 1 else space_left)"

definition handle_long_word ::
  "nat \<Rightarrow> string list \<Rightarrow> nat \<Rightarrow> string \<Rightarrow> string list \<Rightarrow> string list \<times> string list" where
  "handle_long_word width cur_line cur_len chunk chunks =
     (let end = long_word_end width cur_len chunk
      in (cur_line @ [take end chunk], drop end chunk # chunks))"

text \<open>One pass of the outer loop of \<open>_wrap_chunks\<close>: the chunks of the line (possibly none)
  and the chunks left. \<open>started\<close> says whether a line was stored before.\<close>

definition wrap_line :: "nat \<Rightarrow> bool \<Rightarrow> string list \<Rightarrow> string list \<times> string list" where
  "wrap_line width started chunks =
     (let chunks1 = (if chunks \<noteq> [] \<and> strip (hd chunks) = [] \<and> started then tl chunks else chunks);
          (cur_line, cur_len, chunks2) = fill_line width [] 0 chunks1;
          (cur_line', chunks3) =
            (case chunks2 of
               [] \<Rightarrow> (cur_line, chunks2)
             | c # cs \<Rightarrow> if length c > width then handle_long_word width cur_line cur_len c cs
                        else (cur_line, chunks2));
          cur_line'' = (if cur_line' \<noteq> [] \<and> strip (last cur_line') = [] then butlast cur_line'
                        else cur_line')
      in (cur_line'', chunks3))"

definition chunks_size :: "string list \<Rightarrow> nat" where
  "chunks_size chunks = sum_list (map length chunks) + length chunks"

lemma chunks_size_Cons: "chunks_size (c # cs) = Suc (length c + chunks_size cs)"
  by (simp add: chunks_size_def)

lemma fill_line_size:
  "fill_line w cur len cs = (cur', len', cs') \<Longrightarrow>
   (cs' = cs \<and> cur' = cur \<and> len' = len) \<or> chunks_size cs' < chunks_size cs"
proof (induction cs arbitrary: cur len)
  case Nil
  then show ?case by simp
next
  case (Cons c cs)
  show ?case
  proof (cases "len + length c \<le> w")
    case True
    with Cons.prems have "fill_line w (cur @ [c]) (len + length c) cs = (cur', len', cs')"
      by simp
    from Cons.IH [OF this] show ?thesis
      by (auto simp: chunks_size_Cons)
  next
    case False
    with Cons.prems show ?thesis by simp
  qed
qed

lemma fill_line_stop:
  "fill_line w cur len cs = (cur', len', c' # cs') \<Longrightarrow> \<not> len' + length c' \<le> w"
  by (induction cs arbitrary: cur len) (auto split: if_splits)

lemma handle_long_word_size:
  "handle_long_word w cur len c cs = (cur', cs') \<Longrightarrow> chunks_size cs' \<le> chunks_size (c # cs)"
  by (auto simp: handle_long_word_def Let_def chunks_size_Cons)

lemma long_word_end_pos: "0 < long_word_end w 0 c"
  by (simp add: long_word_end_def Let_def)

lemma handle_long_word_size_less:
  assumes "handle_long_word w cur 0 c cs = (cur', cs')" and "w < length c"
  shows "chunks_size cs' < chunks_size (c # cs)"
proof -
  have "c \<noteq> []" using assms(2) by auto
  with long_word_end_pos [of w c] have "length (drop (long_word_end w 0 c) c) < length c"
    by simp
  moreover have "cs' = drop (long_word_end w 0 c) c # cs"
    using assms(1) by (auto simp: handle_long_word_def Let_def)
  ultimately show ?thesis
    by (simp add: chunks_size_Cons)
qed

lemma wrap_line_decreases:
  assumes "chunks \<noteq> []"
  shows "chunks_size (snd (wrap_line w started chunks)) < chunks_size chunks"
proof -
  define chunks1 where
    "chunks1 = (if chunks \<noteq> [] \<and> strip (hd chunks) = [] \<and> started then tl chunks else chunks)"
  define cur where "cur = fst (fill_line w [] 0 chunks1)"
  define len where "len = fst (snd (fill_line w [] 0 chunks1))"
  define chunks2 where "chunks2 = snd (snd (fill_line w [] 0 chunks1))"
  have f: "fill_line w [] 0 chunks1 = (cur, len, chunks2)"
    by (simp add: cur_def len_def chunks2_def)
  define r where "r = (case chunks2 of
               [] \<Rightarrow> (cur, chunks2)
             | c # cs \<Rightarrow> if length c > w then handle_long_word w cur len c cs
                        else (cur, chunks2))"
  have res: "snd (wrap_line w started chunks) = snd r"
    unfolding wrap_line_def r_def cur_def len_def chunks2_def chunks1_def
    by (simp only: Let_def split_beta snd_conv)
  have c1: "chunks_size chunks1 \<le> chunks_size chunks"
  proof (cases chunks)
    case Nil
    then show ?thesis by (simp add: chunks1_def)
  next
    case (Cons a as)
    then show ?thesis by (simp add: chunks1_def chunks_size_Cons)
  qed
  have c2: "chunks_size chunks1 < chunks_size chunks" if "chunks1 \<noteq> chunks"
  proof (cases chunks)
    case Nil
    with that show ?thesis by (simp add: chunks1_def)
  next
    case (Cons a as)
    with that show ?thesis by (simp add: chunks1_def chunks_size_Cons split: if_splits)
  qed
  have r_le: "chunks_size (snd r) \<le> chunks_size chunks2"
  proof (cases chunks2)
    case Nil
    then show ?thesis by (simp add: r_def)
  next
    case (Cons c cs)
    show ?thesis
    proof (cases "length c > w")
      case True
      have "chunks_size (snd (handle_long_word w cur len c cs)) \<le> chunks_size (c # cs)"
        by (rule handle_long_word_size [of w cur len c cs "fst (handle_long_word w cur len c cs)"])
           simp
      with True Cons show ?thesis by (simp add: r_def)
    next
      case False
      with Cons show ?thesis by (simp add: r_def)
    qed
  qed
  from fill_line_size [OF f] show ?thesis
  proof
    assume "chunks_size chunks2 < chunks_size chunks1"
    with r_le c1 res show ?thesis by simp
  next
    assume same: "chunks2 = chunks1 \<and> cur = [] \<and> len = 0"
    show ?thesis
    proof (cases chunks2)
      case Nil
      with same have "chunks1 \<noteq> chunks" using assms by simp
      from c2 [OF this] r_le same res show ?thesis by simp
    next
      case (Cons c cs)
      from fill_line_stop [OF f [unfolded Cons]] same have long: "w < length c" by simp
      from same have "cur = []" "len = 0" by simp_all
      with long have "r = handle_long_word w [] 0 c cs"
        unfolding r_def Cons by simp
      then have "handle_long_word w [] 0 c cs = (fst r, snd r)" by simp
      from handle_long_word_size_less [OF this long] have "chunks_size (snd r) < chunks_size chunks2"
        by (simp add: Cons)
      with same c1 res show ?thesis by simp
    qed
  qed
qed









text \<open>
  The same loop with every line kept as the list of its chunks, as \<open>cur_line\<close> is before
  \<open>''.join(cur_line)\<close>; it is used to say where lines are broken.
\<close>

function wrap_loop_pieces :: "nat \<Rightarrow> string list list \<Rightarrow> string list \<Rightarrow> string list list" where
  "wrap_loop_pieces width lines chunks =
     (if chunks = [] then lines
      else case wrap_line width (lines \<noteq> []) chunks of
             (cur_line, chunks') \<Rightarrow>
               wrap_loop_pieces width (if cur_line \<noteq> [] then lines @ [cur_line] else lines) chunks')"
  by pat_completeness auto
termination
proof (relation "measure (\<lambda>(w, lines, chunks). chunks_size chunks)", goal_cases)
  case 1
  show ?case by simp
next
  case (2 width lines chunks x1 x2)
  from 2(2) [symmetric] have "snd (wrap_line width (lines \<noteq> []) chunks) = x2"
    by simp
  with wrap_line_decreases [OF 2(1), of width "lines \<noteq> []"] show ?case
    by simp
qed

text \<open>\<open>p\<close> occurs in \<open>c\<close> as a run of consecutive characters.\<close>

definition part_of :: "string \<Rightarrow> string \<Rightarrow> bool" where
  "part_of p c \<longleftrightarrow> (\<exists>i\<in>set [0..<Suc (length c)]. take (length p) (drop i c) = p)"

text \<open>\<open>p\<close> is a whole chunk of \<open>chunks\<close>, or a part of one that is longer than the width.\<close>

definition piece_of :: "nat \<Rightarrow> string list \<Rightarrow> string \<Rightarrow> bool" where
  "piece_of width chunks p \<longleftrightarrow>
     p \<in> set chunks \<or> (\<exists>c\<in>set chunks. width < length c \<and> part_of p c)"

text \<open>A word without whitespace and without a hyphen; \<open>" ".join(ws)\<close>; and the words of
  \<open>ws\<close> with the single spaces between them.\<close>

definition plain_word :: "string \<Rightarrow> bool" where
  "plain_word u \<longleftrightarrow> u \<noteq> [] \<and> (\<forall>c\<in>set u. \<not> is_space c \<and> c \<noteq> CHR ''-'')"

fun words_text :: "string list \<Rightarrow> string" where
  "words_text [] = []"
| "words_text [u] = u"
| "words_text (u # v # vs) = u @ CHR '' '' # words_text (v # vs)"

fun words_chunks :: "string list \<Rightarrow> string list" where
  "words_chunks [] = []"
| "words_chunks [u] = [u]"
| "words_chunks (u # v # vs) = u # [CHR '' ''] # words_chunks (v # vs)"

section \<open>Verified properties\<close>

subsection \<open>HistoryStore\<close>




















text \<open>
  Claim C10. \<open>get_messages\<close> returns the address of a list object other than the
  store's own, holding the stored messages in order; the call changes no object that
  existed before, so the store is unchanged. Whatever the caller then does to the returned
  list object (any function \<open>f\<close> of its content: appending, removing, reordering), the
  store's history stays what it was, and \<open>add\<close>, \<open>_trim\<close> and a further \<open>get_messages\<close>
  give the same history as without the mutation.
\<close>

theorem get_messages_fresh_copy:
  assumes "messages s < next_free h"
  shows "case get_messages h s of (h', r) \<Rightarrow>
           r \<noteq> messages s \<and>
           objs h' r = store_msgs h s \<and>
           store_msgs h' s = store_msgs h s \<and>
           (\<forall>a. a \<noteq> r \<longrightarrow> objs h' a = objs h a) \<and>
           (\<forall>f. store_msgs (mutate_list h' r f) s = store_msgs h s \<and>
                map_sum id (\<lambda>h''. store_msgs h'' s) (add (mutate_list h' r f) s role content)
                  = map_sum id (\<lambda>h''. store_msgs h'' s) (add h s role content) \<and>
                map_sum id (\<lambda>h''. store_msgs h'' s) (trim (mutate_list h' r f) s)
                  = map_sum id (\<lambda>h''. store_msgs h'' s) (trim h s) \<and>
                (case get_messages (mutate_list h' r f) s of (h'', r') \<Rightarrow> objs h'' r')
                  = store_msgs h s)"
  using assms
  by (auto simp: get_messages_def alloc_def mutate_list_def set_list_def store_msgs_def
        add_def trim_def split: sum.splits)

theorem get_messages_fresh_copy_witness:
  "messages example_store < next_free example_heap \<and>
   (case get_messages example_heap example_store of (h', r) \<Rightarrow>
           r \<noteq> messages example_store \<and>
           objs h' r = store_msgs example_heap example_store \<and>
           store_msgs h' example_store = store_msgs example_heap example_store \<and>
           (\<forall>a. a \<noteq> r \<longrightarrow> objs h' a = objs example_heap a) \<and>
           (\<forall>f. store_msgs (mutate_list h' r f) example_store
                  = store_msgs example_heap example_store \<and>
                map_sum id (\<lambda>h''. store_msgs h'' example_store)
                    (add (mutate_list h' r f) example_store ''user'' ''x'')
                  = map_sum id (\<lambda>h''. store_msgs h'' example_store)
                    (add example_heap example_store ''user'' ''x'') \<and>
                map_sum id (\<lambda>h''. store_msgs h'' example_store)
                    (trim (mutate_list h' r f) example_store)
                  = map_sum id (\<lambda>h''. store_msgs h'' example_store)
                    (trim example_heap example_store) \<and>
                (case get_messages (mutate_list h' r f) example_store of (h'', r') \<Rightarrow> objs h'' r')
                  = store_msgs example_heap example_store))"
proof -
  have a: "messages example_store < next_free example_heap"
    by (simp add: example_store_def example_heap_def)
  from a get_messages_fresh_copy [OF a, of "''user''" "''x''"] show ?thesis
    by blast
qed

subsection \<open>Transports and the line discipline\<close>

lemma foldl_port_write: "foldl (\<lambda>q b. port_write q [b]) p d = p\<lparr>tx := tx p @ d\<rparr>"
  by (induction d arbitrary: p) (simp_all add: port_write_def)

lemma is_open_Some [simp]: "is_open (M\<lparr>serial := Some p\<rparr>) = port_open p"
  by (simp add: is_open_def)

lemma write_text_open:
  "port_open p \<Longrightarrow>
   write_text (M\<lparr>serial := Some p\<rparr>) t = M\<lparr>serial := Some (p\<lparr>tx := tx p @ map of_char t\<rparr>)\<rparr>"
  by (simp add: write_text_def foldl_port_write encode_latin1_def
        sanitize_latin1_def Let_def) (simp add: port_write_def)

lemma writeln_open:
  "port_open p \<Longrightarrow>
   writeln (M\<lparr>serial := Some p\<rparr>) t =
     M\<lparr>serial := Some (p\<lparr>tx := tx p @ map of_char t @ [0x0d, 0x0a]\<rparr>)\<rparr>"
  by (simp add: writeln_def write_text_open)

lemma read_byte_open:
  "port_open p \<Longrightarrow>
   read_byte (M\<lparr>serial := Some p\<rparr>) =
     (case rx p of [] \<Rightarrow> (None, M\<lparr>serial := Some p\<rparr>)
      | r # rest \<Rightarrow> (r, M\<lparr>serial := Some (p\<lparr>rx := rest\<rparr>)\<rparr>))"
  by (simp add: read_byte_def split: list.splits)

lemma of_char_char_of_byte: "b < 256 \<Longrightarrow> of_char (char_of b) = (b::nat)"
  by simp

lemma read_line_loop_spec:
  "port_open p \<Longrightarrow>
   read_line_loop n echo buf (M\<lparr>serial := Some p\<rparr>) =
     (case spec_read_line n echo buf (rx p) of
        (res, rest, out) \<Rightarrow> (res, M\<lparr>serial := Some (p\<lparr>tx := tx p @ out, rx := rest\<rparr>)\<rparr>))"
proof (induction n arbitrary: buf p)
  case 0
  then show ?case by simp
next
  case (Suc n)
  show ?case
  proof (cases "rx p")
    case Nil
    with Suc show ?thesis
      by (simp add: read_byte_open)
  next
    case (Cons r rs)
    show ?thesis
    proof (cases r)
      case None
      have po: "port_open (p\<lparr>rx := rs\<rparr>)" using Suc.prems by simp
      show ?thesis
        using Suc.prems Cons None Suc.IH [OF po, of buf]
        by (simp add: read_byte_open is_terminator_def split: prod.splits)
    next
      case (Some b)
      have po: "port_open (p\<lparr>rx := rs\<rparr>)" using Suc.prems by simp
      have po2: "port_open (p\<lparr>rx := rs, tx := tx p @ bs\<rparr>)" for bs using Suc.prems by simp
      show ?thesis
      proof (cases "is_terminator r")
        case True
        then show ?thesis
          using Suc.prems Cons Some
          by (auto simp: read_byte_open is_terminator_def writeln_open split: list.splits)
      next
        case False
        then show ?thesis
          using Suc.prems Cons Some Suc.IH [OF po] Suc.IH [OF po2]
          by (auto simp: read_byte_open is_terminator_def write_text_open split: prod.splits)
      qed
    qed
  qed
qed


lemma spec_read_line_terminated:
  "\<forall>r\<in>set pre. \<not> is_terminator r \<Longrightarrow> is_terminator t \<Longrightarrow> length pre < n \<Longrightarrow>
   spec_read_line n echo buf (pre @ t # rest) =
     (Some (foldl spec_edit buf pre), drop 1 rest,
      if echo then spec_echoes buf pre @ [0x0d, 0x0a] else [])"
proof (induction pre arbitrary: n buf)
  case Nil
  then obtain k where "n = Suc k" by (cases n) auto
  with Nil show ?case by simp
next
  case (Cons r pre)
  then obtain k where k: "n = Suc k" by (cases n) auto
  with Cons.prems have "length pre < k" by simp
  with Cons k show ?case by simp
qed

lemma spec_read_line_nil:
  "spec_read_line n echo buf [] = (if buf = [] then None else Some buf, [], [])"
  by (induction n) simp_all

lemma spec_read_line_deadline:
  "\<forall>r\<in>set (take n rs). \<not> is_terminator r \<Longrightarrow>
   spec_read_line n echo buf rs =
     (if foldl spec_edit buf (take n rs) = [] then None
      else Some (foldl spec_edit buf (take n rs)),
      drop n rs, if echo then spec_echoes buf (take n rs) else [])"
proof (induction n arbitrary: buf rs)
  case 0
  then show ?case by simp
next
  case (Suc n)
  show ?case
  proof (cases rs)
    case Nil
    then show ?thesis by (simp add: spec_read_line_nil)
  next
    case (Cons r rs')
    with Suc.prems have "\<not> is_terminator r" "\<forall>r\<in>set (take n rs'). \<not> is_terminator r"
      by simp_all
    with Suc.IH [of rs' "spec_edit buf r"] Cons show ?thesis by simp
  qed
qed

lemma open_decompose:
  assumes "is_open m"
  obtains p where "serial m = Some p" "port_open p" "m = m\<lparr>serial := Some p\<rparr>"
  using assms by (cases "serial m") (auto simp: is_open_def)

lemma read_line_spec:
  assumes "is_open m"
  shows "fst (read_line n echo m) = fst (spec_read_line n echo [] (pending m)) \<and>
         pending (snd (read_line n echo m)) = fst (snd (spec_read_line n echo [] (pending m))) \<and>
         sent (snd (read_line n echo m)) = sent m @ snd (snd (spec_read_line n echo [] (pending m)))"
proof -
  from assms obtain p where p: "serial m = Some p" "port_open p" "m = m\<lparr>serial := Some p\<rparr>"
    by (rule open_decompose)
  have "read_line n echo m = read_line_loop n echo [] (m\<lparr>serial := Some p\<rparr>)"
    using assms p(3) by (simp add: read_line_def)
  also have "\<dots> = (case spec_read_line n echo [] (rx p) of
        (res, rest, out) \<Rightarrow> (res, m\<lparr>serial := Some (p\<lparr>tx := tx p @ out, rx := rest\<rparr>)\<rparr>))"
    by (rule read_line_loop_spec [OF p(2)])
  finally show ?thesis
    using p(1) by (simp add: pending_def sent_def split: prod.splits)
qed

lemma pending_set_pending: "is_open m \<Longrightarrow> pending (set_pending m rs) = rs"
  by (cases "serial m") (simp_all add: pending_def set_pending_def is_open_def)

lemma is_open_set_pending: "is_open (set_pending m rs) = is_open m"
  by (cases "serial m") (simp_all add: set_pending_def is_open_def)

lemma sent_set_pending: "sent (set_pending m rs) = sent m"
  by (cases "serial m") (simp_all add: set_pending_def sent_def)

text \<open>
  Claim C5. On an open serial terminal: when the first terminator arrives within the
  deadline, \<open>read_line\<close> returns the buffer built from the polls before it, so the empty
  string \<open>Some []\<close> when that buffer is empty; when no terminator arrives before the
  deadline it returns the buffer built so far when that is not empty and \<open>None\<close>
  otherwise. \<open>Some []\<close> and \<open>None\<close> are different values.
\<close>

theorem read_line_empty_line_or_no_input:
  assumes "is_open m"
  shows "(pending m = pre @ t # rest \<and> (\<forall>r\<in>set pre. \<not> is_terminator r) \<and>
            is_terminator t \<and> length pre < n \<longrightarrow>
            fst (read_line n echo m) = Some (foldl spec_edit [] pre) \<and>
            (foldl spec_edit [] pre = [] \<longrightarrow> fst (read_line n echo m) = Some [])) \<and>
         ((\<forall>r\<in>set (take n (pending m)). \<not> is_terminator r) \<longrightarrow>
            fst (read_line n echo m) =
              (if foldl spec_edit [] (take n (pending m)) = [] then None
               else Some (foldl spec_edit [] (take n (pending m)))))"
  using read_line_spec [OF assms, of n echo]
  by (auto simp: spec_read_line_terminated spec_read_line_deadline)

theorem read_line_empty_line_or_no_input_witness:
  "is_open (open_minitel [None, Some 0x0a]) \<and>
   fst (read_line 5 True (open_minitel [None, Some 0x0a])) = Some [] \<and>
   is_open (open_minitel [Some 0x41, None]) \<and>
   fst (read_line 2 True (open_minitel [Some 0x41, None])) = Some ''A'' \<and>
   is_open (open_minitel [None, None, None]) \<and>
   fst (read_line 2 True (open_minitel [None, None, None])) = None"
proof -
  have o: "is_open (open_minitel rs)" for rs
    by (simp add: open_minitel_def is_open_def)
  have p: "pending (open_minitel rs) = rs" for rs
    by (simp add: open_minitel_def pending_def)
  have a: "fst (read_line 5 True (open_minitel [None, Some 0x0a])) = Some []"
    using read_line_empty_line_or_no_input
            [OF o, of "[None, Some 0x0a]" "[None]" "Some 0x0a" "[]" 5 True]
    by (simp add: p is_terminator_def)
  have b: "fst (read_line 2 True (open_minitel [Some 0x41, None])) = Some ''A''"
    using read_line_empty_line_or_no_input
            [OF o, of "[Some 0x41, None]" "[]" None "[]" 2 True]
    by (simp add: p is_terminator_def char_of_def bit_iff_odd)
  have c: "fst (read_line 2 True (open_minitel [None, None, None])) = None"
    using read_line_empty_line_or_no_input
            [OF o, of "[None, None, None]" "[]" None "[]" 2 True]
    by (simp add: p is_terminator_def)
  from a b c o show ?thesis by simp
qed


text \<open>
  Claim C6. In the loop of \<open>read_line\<close> on an open serial terminal, a byte 0x08 or 0x7F
  read while the buffer is empty changes neither the buffer nor what was sent; read while
  the buffer is \<open>buf @ [c]\<close> it leaves \<open>buf\<close> and, with echo, sends 0x08 0x20 0x08. The bytes
  0x41 0x42 0x7F 0x43 0x0D with echo give the line \<open>AC\<close> and the echo
  \<open>A B BS SP BS C CR LF\<close>.
\<close>

theorem read_line_backspace:
  assumes "is_open m" and "pending m = Some b # rest" and "b = 0x08 \<or> b = 0x7f"
  shows "read_line_loop (Suc n) echo [] m = read_line_loop n echo [] (set_pending m rest) \<and>
         sent (set_pending m rest) = sent m \<and>
         read_line_loop (Suc n) echo (buf @ [c]) m =
           read_line_loop n echo buf
             (if echo then write_text (set_pending m rest) [CHR 0x08, CHR '' '', CHR 0x08]
              else set_pending m rest) \<and>
         sent (write_text (set_pending m rest) [CHR 0x08, CHR '' '', CHR 0x08]) =
           sent m @ [0x08, 0x20, 0x08] \<and>
         (5 \<le> k \<longrightarrow>
            fst (read_line k True (open_minitel [Some 0x41, Some 0x42, Some 0x7F, Some 0x43, Some 0x0D]))
              = Some ''AC'' \<and>
            sent (snd (read_line k True
                    (open_minitel [Some 0x41, Some 0x42, Some 0x7F, Some 0x43, Some 0x0D])))
              = [0x41, 0x42, 0x08, 0x20, 0x08, 0x43, 0x0D, 0x0A])"
proof -
  from assms(1) obtain p where p: "serial m = Some p" "port_open p" "m = m\<lparr>serial := Some p\<rparr>"
    by (rule open_decompose)
  have rb: "read_byte m = (Some b, set_pending m rest)"
    using assms(1,2) p(1,2) by (simp add: read_byte_def pending_def set_pending_def)
  have sp: "set_pending m rest = m\<lparr>serial := Some (p\<lparr>rx := rest\<rparr>)\<rparr>"
    using p(1) by (simp add: set_pending_def)
  have w: "sent (write_text (set_pending m rest) [CHR 0x08, CHR '' '', CHR 0x08]) =
           sent m @ [0x08, 0x20, 0x08]"
    using p(1,2) by (simp add: sp write_text_open sent_def)
  have o: "is_open (open_minitel rs)" for rs
    by (simp add: open_minitel_def is_open_def)
  have scen: "spec_read_line k True [] [Some 0x41, Some 0x42, Some 0x7F, Some 0x43, Some 0x0D]
      = (Some ''AC'', [], [0x41, 0x42, 0x08, 0x20, 0x08, 0x43, 0x0D, 0x0A])" if "5 \<le> k"
    using that
      spec_read_line_terminated [of "[Some 0x41, Some 0x42, Some 0x7F, Some 0x43]" "Some 0x0D" k True "[]" "[]"]
    by (simp add: is_terminator_def char_of_def bit_iff_odd)
  let ?m0 = "open_minitel [Some 0x41, Some 0x42, Some 0x7F, Some 0x43, Some 0x0D]"
  have pm0: "pending ?m0 = [Some 0x41, Some 0x42, Some 0x7F, Some 0x43, Some 0x0D]"
    and sm0: "sent ?m0 = []"
    by (simp_all add: open_minitel_def pending_def sent_def)
  have c1: "read_line_loop (Suc n) echo [] m = read_line_loop n echo [] (set_pending m rest)"
    using rb assms(3) by auto
  have c2: "sent (set_pending m rest) = sent m"
    by (rule sent_set_pending)
  have c3: "read_line_loop (Suc n) echo (buf @ [c]) m =
           read_line_loop n echo buf
             (if echo then write_text (set_pending m rest) [CHR 0x08, CHR '' '', CHR 0x08]
              else set_pending m rest)"
    using rb assms(3) by auto
  have c5: "fst (read_line k True ?m0) = Some ''AC'' \<and>
            sent (snd (read_line k True ?m0)) = [0x41, 0x42, 0x08, 0x20, 0x08, 0x43, 0x0D, 0x0A]"
    if "5 \<le> k"
    using read_line_spec [OF o, of k True "[Some 0x41, Some 0x42, Some 0x7F, Some 0x43, Some 0x0D]"]
      scen [OF that]
    by (simp add: pm0 sm0)
  from c1 c2 c3 w c5 show ?thesis by blast
qed

theorem read_line_backspace_witness:
  "is_open (open_minitel [Some 0x7f, Some 0x41]) \<and>
   pending (open_minitel [Some 0x7f, Some 0x41]) = Some 0x7f # [Some 0x41] \<and>
   read_line_loop (Suc 3) True [] (open_minitel [Some 0x7f, Some 0x41]) =
     read_line_loop 3 True [] (open_minitel [Some 0x41]) \<and>
   sent (snd (read_line_loop (Suc 3) True ''AB'' (open_minitel [Some 0x7f, Some 0x41]))) =
     [0x08, 0x20, 0x08, 0x41] \<and>
   fst (read_line_loop (Suc 3) True ''AB'' (open_minitel [Some 0x7f, Some 0x41])) = Some ''AA'' \<and>
   fst (read_line 5 True (open_minitel [Some 0x41, Some 0x42, Some 0x7F, Some 0x43, Some 0x0D]))
     = Some ''AC''"
proof -
  have o: "is_open (open_minitel [Some 0x7f, Some 0x41])"
    by (simp add: open_minitel_def is_open_def)
  have p: "pending (open_minitel [Some 0x7f, Some 0x41]) = Some 0x7f # [Some 0x41]"
    by (simp add: open_minitel_def pending_def)
  have sp: "set_pending (open_minitel [Some 0x7f, Some 0x41]) [Some 0x41] = open_minitel [Some 0x41]"
    by (simp add: open_minitel_def set_pending_def)
  have ev: "read_line_loop 3 True ''A''
               (write_text (open_minitel [Some 0x41]) [CHR 0x08, CHR '' '', CHR 0x08])
            = (Some ''AA'', \<lparr>serial = Some \<lparr>port_open = True, tx = [0x08, 0x20, 0x08, 0x41], rx = []\<rparr>,
      line_delay_ms = 80, char_delay_ms = 0, pagination_enabled = True\<rparr>)"
    by (simp add: open_minitel_def write_text_def is_open_def read_byte_def encode_latin1_def
          sanitize_latin1_def port_write_def numeral_3_eq_3 char_of_def bit_iff_odd)
  from read_line_backspace [OF o p, of 3 True "''A''" "CHR ''B''" 5] show ?thesis
    using o p by (simp add: sp ev sent_def)
qed


lemma read_line_set_pending:
  assumes "serial m = Some p" and "port_open p"
  shows "read_line n echo (set_pending m rs) =
     (case spec_read_line n echo [] rs of
        (res, rest, out) \<Rightarrow> (res, m\<lparr>serial := Some (p\<lparr>tx := tx p @ out, rx := rest\<rparr>)\<rparr>))"
proof -
  have sp: "set_pending m rs = m\<lparr>serial := Some (p\<lparr>rx := rs\<rparr>)\<rparr>"
    using assms(1) by (simp add: set_pending_def)
  have po: "port_open (p\<lparr>rx := rs\<rparr>)" using assms(2) by simp
  show ?thesis
    using assms(2) read_line_loop_spec [OF po, of n echo "[]" m]
    by (simp add: sp read_line_def split: prod.splits)
qed

text \<open>
  Claim C7. After the terminator \<open>t\<close>, \<open>read_line\<close> consumes one further poll outcome,
  whatever it is: the result and the whole state afterwards are the same for any two
  outcomes \<open>x\<close> and \<open>y\<close> in that place (a paired terminator, another byte, or nothing), what
  is left to read is what followed it, and a later \<open>read_line\<close> returns what it would
  return on that rest alone: the byte is in no later line.
\<close>

theorem read_line_byte_after_terminator_dropped:
  assumes "is_open m" and "\<forall>r\<in>set pre. \<not> is_terminator r" and "is_terminator t"
    and "length pre < n"
  shows "read_line n echo (set_pending m (pre @ t # x # rest)) =
           read_line n echo (set_pending m (pre @ t # y # rest)) \<and>
         fst (read_line n echo (set_pending m (pre @ t # x # rest))) =
           Some (foldl spec_edit [] pre) \<and>
         pending (snd (read_line n echo (set_pending m (pre @ t # x # rest)))) = rest \<and>
         pending (snd (read_line n echo (set_pending m (pre @ [t])))) = [] \<and>
         fst (read_line k e (snd (read_line n echo (set_pending m (pre @ t # x # rest))))) =
           fst (read_line k e (set_pending m rest))"
proof -
  from assms(1) obtain p where p: "serial m = Some p" "port_open p" "m = m\<lparr>serial := Some p\<rparr>"
    by (rule open_decompose)
  note t = spec_read_line_terminated [OF assms(2,3,4)]
  let ?out = "if echo then spec_echoes [] pre @ [0x0d, 0x0a] else []"
  have r: "read_line n echo (set_pending m (pre @ t # z # rest)) =
             (Some (foldl spec_edit [] pre), m\<lparr>serial := Some (p\<lparr>tx := tx p @ ?out, rx := rest\<rparr>)\<rparr>)"
    for z
    by (simp add: read_line_set_pending [OF p(1,2)] t)
  have r0: "read_line n echo (set_pending m (pre @ [t])) =
             (Some (foldl spec_edit [] pre), m\<lparr>serial := Some (p\<lparr>tx := tx p @ ?out, rx := []\<rparr>)\<rparr>)"
    by (simp add: read_line_set_pending [OF p(1,2)] t)
  let ?m' = "m\<lparr>serial := Some (p\<lparr>tx := tx p @ ?out, rx := rest\<rparr>)\<rparr>"
  have o': "is_open ?m'" using p(2) by (simp add: is_open_def)
  have "fst (read_line k e ?m') = fst (spec_read_line k e [] rest)"
    using read_line_spec [OF o', of k e] by (simp add: pending_def)
  moreover have "fst (read_line k e (set_pending m rest)) = fst (spec_read_line k e [] rest)"
    by (simp add: read_line_set_pending [OF p(1,2)] split: prod.splits)
  ultimately have last: "fst (read_line k e ?m') = fst (read_line k e (set_pending m rest))"
    by simp
  show ?thesis
    using last by (simp add: r r0 pending_def)
qed

theorem read_line_byte_after_terminator_dropped_witness:
  "is_open (open_minitel []) \<and> \<not> is_terminator (Some 0x41) \<and>
   is_terminator (Some 0x0d) \<and> length [Some (0x41::nat)] < 5 \<and>
   read_line 5 True (set_pending (open_minitel []) ([Some 0x41] @ Some 0x0d # Some 0x42 # [Some 0x43, Some 0x0a])) =
     read_line 5 True (set_pending (open_minitel []) ([Some 0x41] @ Some 0x0d # Some 0x0a # [Some 0x43, Some 0x0a])) \<and>
   fst (read_line 5 True (set_pending (open_minitel []) ([Some 0x41] @ Some 0x0d # Some 0x42 # [Some 0x43, Some 0x0a])))
     = Some ''A'' \<and>
   pending (snd (read_line 5 True (set_pending (open_minitel []) ([Some 0x41] @ Some 0x0d # Some 0x42 # [Some 0x43, Some 0x0a]))))
     = [Some 0x43, Some 0x0a] \<and>
   fst (read_line 5 True (snd (read_line 5 True (set_pending (open_minitel []) ([Some 0x41] @ Some 0x0d # Some 0x42 # [Some 0x43, Some 0x0a])))))
     = Some ''C''"
proof -
  have o: "is_open (open_minitel [])"
    by (simp add: open_minitel_def is_open_def)
  have a: "\<forall>r\<in>set [Some (0x41::nat)]. \<not> is_terminator r" and b: "is_terminator (Some 0x0d)"
    and c: "length [Some (0x41::nat)] < 5"
    by (simp_all add: is_terminator_def)
  have sp: "set_pending (open_minitel []) rs = open_minitel rs" for rs
    by (simp add: set_pending_def open_minitel_def)
  have o2: "is_open (open_minitel rs)" for rs
    by (simp add: open_minitel_def is_open_def)
  have pm: "pending (open_minitel rs) = rs" for rs
    by (simp add: open_minitel_def pending_def)
  have sr: "spec_read_line 5 True [] [Some 0x43, Some 0x0a] = (Some ''C'', [], [0x43, 0x0d, 0x0a])"
    using spec_read_line_terminated [of "[Some 0x43]" "Some 0x0a" 5 True "[]" "[]"]
    by (simp add: is_terminator_def char_of_def bit_iff_odd)
  have ev: "fst (read_line 5 True (open_minitel [Some 0x43, Some 0x0a])) = Some ''C''"
    using read_line_spec [OF o2, of 5 True "[Some 0x43, Some 0x0a]"]
    by (simp add: pm sr)
  have fe: "foldl spec_edit [] [Some 0x41] = ''A''"
    by (simp add: char_of_def bit_iff_odd)
  have t: "read_line 5 True (open_minitel ([Some 0x41] @ Some 0x0d # Some 0x42 # [Some 0x43, Some 0x0a])) =
     read_line 5 True (open_minitel ([Some 0x41] @ Some 0x0d # Some 0x0a # [Some 0x43, Some 0x0a])) \<and>
   fst (read_line 5 True (open_minitel ([Some 0x41] @ Some 0x0d # Some 0x42 # [Some 0x43, Some 0x0a])))
     = Some ''A'' \<and>
   pending (snd (read_line 5 True (open_minitel ([Some 0x41] @ Some 0x0d # Some 0x42 # [Some 0x43, Some 0x0a]))))
     = [Some 0x43, Some 0x0a] \<and>
   pending (snd (read_line 5 True (open_minitel ([Some 0x41] @ [Some 0x0d])))) = [] \<and>
   fst (read_line 5 True (snd (read_line 5 True (open_minitel ([Some 0x41] @ Some 0x0d # Some 0x42 # [Some 0x43, Some 0x0a])))))
     = Some ''C''"
    using read_line_byte_after_terminator_dropped
      [OF o a b c, of True "Some 0x42" "[Some 0x43, Some 0x0a]" "Some 0x0a" 5 True]
    unfolding sp fe ev .
  have a': "\<not> is_terminator (Some 0x41)"
    by (simp add: is_terminator_def)
  from o a' b c t show ?thesis
    unfolding sp by blast
qed

text \<open>
  Claim C4 fails for the simulated terminal, which never looks at its open flag: closed, it
  still prints and still consumes input.
\<close>

theorem closed_simulated_writes_and_reads:
  "\<not> sim_is_open (closed_simulated ''A'') \<and>
   stdout (closed_simulated ''A'') = [] \<and>
   stdout (sim_write (closed_simulated ''A'') ''x'') = ''x'' \<and>
   stdout (sim_writeln (closed_simulated ''A'') ''x'') = [CHR ''x'', CHR 0x0A] \<and>
   sim_read_byte (closed_simulated ''A'') = (Some 0x41, closed_simulated []) \<and>
   sim_read_line 1 True (closed_simulated ''A'') = (Some ''A'', closed_simulated [])"
  by (simp add: closed_simulated_def sim_write_def sim_writeln_def sim_read_byte_def
        sim_read_line_def sanitize_latin1_def)

text \<open>
  Claim C4, amended to the serial terminal. When it is not open, \<open>write\<close>, \<open>writeln\<close>,
  \<open>read_byte\<close>, \<open>read_line\<close> and \<open>wait_keypress\<close> leave the whole state as it was (nothing
  sent, nothing consumed), and the reads return \<open>None\<close>.
\<close>

theorem serial_not_open_noop:
  assumes "\<not> is_open m"
  shows "write_text m t = m \<and> writeln m l = m \<and> read_byte m = (None, m) \<and>
         read_line n echo m = (None, m) \<and> wait_keypress m = (None, m)"
  using assms
  by (simp add: write_text_def writeln_def read_byte_def read_line_def wait_keypress_def)

theorem serial_not_open_noop_witness:
  "\<not> is_open closed_minitel \<and>
   write_text closed_minitel ''x'' = closed_minitel \<and>
   writeln closed_minitel ''x'' = closed_minitel \<and>
   read_byte closed_minitel = (None, closed_minitel) \<and>
   read_line 3 True closed_minitel = (None, closed_minitel) \<and>
   wait_keypress closed_minitel = (None, closed_minitel)"
proof -
  have a: "\<not> is_open closed_minitel"
    by (simp add: closed_minitel_def is_open_def)
  from a serial_not_open_noop [OF a, of "''x''" "''x''" 3 True] show ?thesis
    by blast
qed

text \<open>
  Claim C3 fails: on the bytes 0x41 0x42 0x7F 0x43 0x0A the serial \<open>read_line\<close> returns
  \<open>AC\<close>, the simulated one returns the four characters before the line feed.
\<close>

theorem simulated_read_line_differs:
  "fst (read_line 10 True (open_minitel [Some 0x41, Some 0x42, Some 0x7F, Some 0x43, Some 0x0A]))
     = Some ''AC'' \<and>
   fst (sim_read_line 10 True (open_simulated [CHR 0x41, CHR 0x42, CHR 0x7F, CHR 0x43, CHR 0x0A]))
     = Some [CHR 0x41, CHR 0x42, CHR 0x7F, CHR 0x43] \<and>
   fst (read_line 10 True (open_minitel [Some 0x41, Some 0x42, Some 0x7F, Some 0x43, Some 0x0A]))
     \<noteq> fst (sim_read_line 10 True (open_simulated [CHR 0x41, CHR 0x42, CHR 0x7F, CHR 0x43, CHR 0x0A]))"
proof -
  have o: "is_open (open_minitel rs)" for rs
    by (simp add: open_minitel_def is_open_def)
  have pm: "pending (open_minitel rs) = rs" for rs
    by (simp add: open_minitel_def pending_def)
  have sr: "spec_read_line 10 True [] [Some 0x41, Some 0x42, Some 0x7F, Some 0x43, Some 0x0A]
      = (Some ''AC'', [], [0x41, 0x42, 0x08, 0x20, 0x08, 0x43, 0x0D, 0x0A])"
    using spec_read_line_terminated
      [of "[Some 0x41, Some 0x42, Some 0x7F, Some 0x43]" "Some 0x0A" 10 True "[]" "[]"]
    by (simp add: is_terminator_def char_of_def bit_iff_odd)
  have a: "fst (read_line 10 True (open_minitel [Some 0x41, Some 0x42, Some 0x7F, Some 0x43, Some 0x0A]))
     = Some ''AC''"
    using read_line_spec [OF o, of 10 True "[Some 0x41, Some 0x42, Some 0x7F, Some 0x43, Some 0x0A]"]
    by (simp add: pm sr)
  have b: "fst (sim_read_line 10 True (open_simulated [CHR 0x41, CHR 0x42, CHR 0x7F, CHR 0x43, CHR 0x0A]))
     = Some [CHR 0x41, CHR 0x42, CHR 0x7F, CHR 0x43]"
    by (simp add: sim_read_line_def open_simulated_def)
  show ?thesis
    unfolding a b by simp
qed

lemma spec_edit_printable:
  "\<forall>c\<in>set cs. 0x20 \<le> (of_char c :: nat) \<and> (of_char c :: nat) \<le> 0x7e \<Longrightarrow>
   foldl spec_edit buf (map (\<lambda>c. Some (of_char c)) cs) = buf @ cs"
  by (induction cs arbitrary: buf) simp_all

lemma sim_read_line_nonempty:
  "stdin m \<noteq> [] \<Longrightarrow>
   fst (sim_read_line n e m) = Some (takeWhile (\<lambda>c. c \<noteq> CHR 0x0A) (stdin m))"
  by (cases "stdin m") (simp_all add: sim_read_line_def)

text \<open>
  Claim C3, amended. When the bytes delivered are printable ASCII characters followed by a
  line feed, all before the deadline, the serial \<open>read_line\<close> on an open terminal and
  the simulated \<open>read_line\<close> return the same line (the empty line included).
\<close>

theorem read_line_variants_agree_on_plain_lines:
  assumes "is_open m"
    and "\<forall>c\<in>set cs. 0x20 \<le> (of_char c :: nat) \<and> (of_char c :: nat) \<le> 0x7e"
    and "length cs < n"
    and "pending m = map (\<lambda>c. Some (of_char c)) cs @ Some 0x0a # rest"
    and "stdin s = cs @ CHR 0x0A # rest'"
  shows "fst (read_line n echo m) = Some cs \<and> fst (sim_read_line n echo s) = Some cs"
proof -
  have nt: "\<forall>r\<in>set (map (\<lambda>c. Some (of_char c)) cs). \<not> is_terminator r"
    using assms(2) by (auto simp: is_terminator_def)
  have "fst (spec_read_line n echo [] (pending m)) = Some cs"
    using spec_read_line_terminated [OF nt, of "Some 0x0a" n echo "[]" rest] assms(3)
      spec_edit_printable [OF assms(2), of "[]"]
    by (simp add: assms(4) is_terminator_def)
  then have a: "fst (read_line n echo m) = Some cs"
    using read_line_spec [OF assms(1), of n echo] by simp
  have "CHR 0x0A \<notin> set cs"
    using assms(2) by auto
  then have tw: "takeWhile (\<lambda>c. c \<noteq> CHR 0x0A) (cs @ CHR 0x0A # rest') = cs"
    by (induction cs) auto
  have b: "fst (sim_read_line n echo s) = Some cs"
    using tw sim_read_line_nonempty [of s n echo] by (simp add: assms(5))
  from a b show ?thesis by simp
qed

theorem read_line_variants_agree_on_plain_lines_witness:
  "is_open (open_minitel [Some 0x48, Some 0x69, Some 0x0a]) \<and>
   length ''Hi'' < 5 \<and>
   pending (open_minitel [Some 0x48, Some 0x69, Some 0x0a]) =
     map (\<lambda>c. Some (of_char c)) ''Hi'' @ Some 0x0a # [] \<and>
   stdin (open_simulated [CHR ''H'', CHR ''i'', CHR 0x0A]) = ''Hi'' @ CHR 0x0A # [] \<and>
   fst (read_line 5 True (open_minitel [Some 0x48, Some 0x69, Some 0x0a])) = Some ''Hi'' \<and>
   fst (sim_read_line 5 True (open_simulated [CHR ''H'', CHR ''i'', CHR 0x0A])) = Some ''Hi''"
proof -
  have a: "is_open (open_minitel [Some 0x48, Some 0x69, Some 0x0a])"
    by (simp add: open_minitel_def is_open_def)
  have b: "\<forall>c\<in>set ''Hi''. 0x20 \<le> (of_char c :: nat) \<and> (of_char c :: nat) \<le> 0x7e"
    by simp
  have c: "length ''Hi'' < 5" by simp
  have d: "pending (open_minitel [Some 0x48, Some 0x69, Some 0x0a]) =
     map (\<lambda>c. Some (of_char c)) ''Hi'' @ Some 0x0a # []"
    by (simp add: open_minitel_def pending_def)
  have e: "stdin (open_simulated [CHR ''H'', CHR ''i'', CHR 0x0A]) = ''Hi'' @ CHR 0x0A # []"
    by (simp add: open_simulated_def)
  from a b c d e read_line_variants_agree_on_plain_lines [OF a b c d e, of True] show ?thesis
    by blast
qed

subsection \<open>Display functions\<close>

declare wrap_remaining.simps [simp del] wrap_segment.simps [simp del]
  flush_buffer.simps [simp del] process_buffer.simps [simp del]

lemma t_write_facts [simp]:
  "pauses (t_write t s) = pauses t" "line_ends (t_write t s) = line_ends t"
  "pagination (t_write t s) = pagination t"
  by (simp_all add: t_write_def pauses_def line_ends_def)

lemma t_writeln_facts [simp]:
  "pauses (t_writeln t s) = pauses t" "line_ends (t_writeln t s) = Suc (line_ends t)"
  "pagination (t_writeln t s) = pagination t"
  by (simp_all add: t_writeln_def pauses_def line_ends_def)

lemma t_wait_facts [simp]:
  "pauses (t_wait_keypress t) = Suc (pauses t)" "line_ends (t_wait_keypress t) = line_ends t"
  "pagination (t_wait_keypress t) = pagination t"
  by (simp_all add: t_wait_keypress_def pauses_def line_ends_def)

lemma pause_facts [simp]:
  "pauses (pause t) = Suc (pauses t)" "line_ends (pause t) = Suc (line_ends t)"
  "pagination (pause t) = pagination t"
  by (simp_all add: pause_def)














lemma new_terminal_facts [simp]:
  "pauses (new_terminal p) = 0" "line_ends (new_terminal p) = 0"
  "pagination (new_terminal p) = p"
  by (simp_all add: new_terminal_def pauses_def line_ends_def)












text \<open>
  Claim C1 fails in \<open>display_streaming\<close>. A segment that fills the line exactly is written
  followed by a space, which makes 41 characters; the next segment is then cut with a
  negative slice bound and written on the same line. The chunks \<open>a\<close> (40 times)
  \<open>space b\<close> and \<open>bbbbbbbbbbbb c\<close> give a first line of 53 characters; the first chunk alone
  gives a line of 41.
\<close>

theorem display_streaming_overlong_line:
  "emitted_lines (calls (snd (display_streaming (new_terminal False)
       [replicate 40 (CHR ''a'') @ '' b'', ''bbbbbbbbbbbb c''] PAGE_LINES))) []
     = [replicate 40 (CHR ''a'') @ '' '' @ replicate 12 (CHR ''b''), ''b c''] \<and>
   map length (emitted_lines (calls (snd (display_streaming (new_terminal False)
       [replicate 40 (CHR ''a'') @ '' b'', ''bbbbbbbbbbbb c''] PAGE_LINES))) []) = [53, 3] \<and>
   map length (emitted_lines (calls (snd (display_streaming (new_terminal False)
       [replicate 40 (CHR ''a'') @ '' b''] PAGE_LINES))) []) = [41, 1]"
  by code_simp

end
